theory Spec2Isabelle
  imports Main "HOL-Library.Sublist"
begin

section \<open>Data model: lxml trees\<close>

text \<open>
  \<^verbatim>\<open>etree_tools.py\<close> works on the mutable trees of \<^verbatim>\<open>lxml.etree\<close> that \<^verbatim>\<open>parse_html\<close>
  builds with html5lib. A node of such a tree is either an element (tag, attributes,
  text, tail, children) or a comment, which has a text and a tail but neither attributes
  nor children, and whose \<^verbatim>\<open>tag\<close> is not a string but the factory function
  \<^verbatim>\<open>etree.Comment\<close>. (html5lib turns processing instructions into comments and resolves
  entities, so the other content-only nodes of lxml do not occur.) The text that follows
  a node inside its parent is the node's \<^verbatim>\<open>tail\<close>; it moves with the node when the
  node is detached. The parent link is not stored: a function that mutates a node in place
  returns the node's new state, and a request to detach the node from its parent is a
  Boolean handed to whoever holds the parent's child list.

  Python strings are modelled by \<^typ>\<open>string\<close>; attributes are an association list in
  document order.
\<close>

datatype node =
    Element string "(string \<times> string) list" "string option" "string option" "node list"
  | Comment "string option" "string option"

text \<open>The value of \<^verbatim>\<open>ele.tag\<close>: a string for an element, the factory function otherwise.\<close>

datatype tagv = Name string | CommentFactory

fun tag_of :: "node \<Rightarrow> tagv" where
  "tag_of (Element t a tx ta cs) = Name t"
| "tag_of (Comment tx ta) = CommentFactory"

fun attrib :: "node \<Rightarrow> (string \<times> string) list" where
  "attrib (Element t a tx ta cs) = a"
| "attrib (Comment tx ta) = []"

fun text_of :: "node \<Rightarrow> string option" where
  "text_of (Element t a tx ta cs) = tx"
| "text_of (Comment tx ta) = tx"

fun tail_of :: "node \<Rightarrow> string option" where
  "tail_of (Element t a tx ta cs) = ta"
| "tail_of (Comment tx ta) = ta"

fun getchildren :: "node \<Rightarrow> node list" where
  "getchildren (Element t a tx ta cs) = cs"
| "getchildren (Comment tx ta) = []"

text \<open>
  \<^verbatim>\<open>ele.extend(xs)\<close> appends to the child list. It is only ever applied to a node that
  had children, hence to an element.
\<close>

fun extend :: "node \<Rightarrow> node list \<Rightarrow> node" where
  "extend (Element t a tx ta cs) xs = Element t a tx ta (cs @ xs)"
| "extend (Comment tx ta) xs = Comment tx ta"

text \<open>
  \<^verbatim>\<open>ele.clear()\<close> drops the children, the attributes, the text and the tail of an
  element; a comment keeps its content and loses its tail.
  \<^verbatim>\<open>ele.text = s\<close> stores a text.
\<close>

fun clear :: "node \<Rightarrow> node" where
  "clear (Element t a tx ta cs) = Element t [] None None []"
| "clear (Comment tx ta) = Comment tx None"

fun set_text :: "node \<Rightarrow> string option \<Rightarrow> node" where
  "set_text (Element t a tx ta cs) s = Element t a s ta cs"
| "set_text (Comment tx ta) s = Comment s ta"

text \<open>
  \<^verbatim>\<open>remove_children\<close>: \<^verbatim>\<open>getchildren()\<close> returns a fresh list, so the loop detaches
  every child.
\<close>

fun remove_children :: "node \<Rightarrow> node" where
  "remove_children (Element t a tx ta cs) = Element t a tx ta []"
| "remove_children (Comment tx ta) = Comment tx ta"

datatype error = TypeError | ValueError string | AttributeError

section \<open>Serialisation\<close>

text \<open>
  \<^verbatim>\<open>to_string(ele)\<close> is \<^verbatim>\<open>etree.tostring(ele, encoding="utf-8").decode("utf-8")\<close>
  (the \<^verbatim>\<open>pretty_print\<close> branch goes through another library and is not used by the
  functions below). The serialiser belongs to lxml; the model writes markup the way it
  does for a tree without namespaces: an element without text and children is
  self-closing, text and attribute values are escaped, and the tail follows the node.
  None of the general theorems below unfolds this definition.
\<close>

fun escape_text :: "string \<Rightarrow> string" where
  "escape_text [] = []"
| "escape_text (c # s) =
     (if c = CHR ''&'' then ''&amp;''
      else if c = CHR ''<'' then ''&lt;''
      else if c = CHR ''>'' then ''&gt;''
      else if c = CHR 0x0D then ''&#13;''
      else [c]) @ escape_text s"

fun escape_attr :: "string \<Rightarrow> string" where
  "escape_attr [] = []"
| "escape_attr (c # s) =
     (if c = CHR ''&'' then ''&amp;''
      else if c = CHR ''<'' then ''&lt;''
      else if c = CHR ''>'' then ''&gt;''
      else if c = CHR 0x22 then ''&quot;''
      else if c = CHR 0x09 then ''&#9;''
      else if c = CHR 0x0A then ''&#10;''
      else if c = CHR 0x0D then ''&#13;''
      else [c]) @ escape_attr s"

definition opt_text :: "string option \<Rightarrow> string" where
  "opt_text s = (case s of None \<Rightarrow> [] | Some x \<Rightarrow> x)"

definition attrs_string :: "(string \<times> string) list \<Rightarrow> string" where
  "attrs_string a =
     concat (map (\<lambda>(k, v). '' '' @ k @ ''='' @ [CHR 0x22] @ escape_attr v @ [CHR 0x22]) a)"

fun to_string :: "node \<Rightarrow> string" where
  "to_string (Element t a tx ta cs) =
     (if tx = None \<and> cs = [] then ''<'' @ t @ attrs_string a @ ''/>''
      else ''<'' @ t @ attrs_string a @ ''>'' @ escape_text (opt_text tx)
             @ concat (map to_string cs) @ ''</'' @ t @ ''>'')
     @ escape_text (opt_text ta)"
| "to_string (Comment tx ta) =
     ''<!--'' @ opt_text tx @ ''-->'' @ escape_text (opt_text ta)"

section \<open>The budget pruner\<close>

text \<open>
  The tokenizer is a parameter: \<open>tokenizer s\<close> stands for
  \<^verbatim>\<open>len(tokenizer.encode(s).ids)\<close>.
\<close>

definition count_tokens :: "(string \<Rightarrow> nat) \<Rightarrow> node \<Rightarrow> int" where
  "count_tokens tokenizer ele = int (tokenizer (to_string ele))"

text \<open>
  The loop \<^verbatim>\<open>for idx, child in enumerate(children)\<close> of \<^verbatim>\<open>prune_by_tokens\<close>, entered
  with a non-empty list. It returns the values that \<^verbatim>\<open>idx\<close>, \<^verbatim>\<open>child\<close> and
  \<^verbatim>\<open>acc_tokens\<close> have when the loop is left, by \<^verbatim>\<open>break\<close> or by exhaustion.
\<close>

fun accept_loop ::
  "(string \<Rightarrow> nat) \<Rightarrow> int \<Rightarrow> int \<Rightarrow> nat \<Rightarrow> node \<Rightarrow> node list \<Rightarrow> nat \<times> node \<times> int" where
  "accept_loop tokenizer required_tokens acc_tokens idx child rest =
     (let child_tokens = count_tokens tokenizer child in
      if acc_tokens + child_tokens > required_tokens then (idx, child, acc_tokens)
      else (case rest of
              [] \<Rightarrow> (idx, child, acc_tokens + child_tokens)
            | c # cs \<Rightarrow> accept_loop tokenizer required_tokens (acc_tokens + child_tokens) (idx + 1) c cs))"

declare accept_loop.simps [simp del]

lemma accept_loop_break:
  "acc + count_tokens tokenizer child > req \<Longrightarrow>
   accept_loop tokenizer req acc idx child rest = (idx, child, acc)"
  by (subst accept_loop.simps) simp

lemma accept_loop_last:
  "\<not> acc + count_tokens tokenizer child > req \<Longrightarrow>
   accept_loop tokenizer req acc idx child [] = (idx, child, acc + count_tokens tokenizer child)"
  by (subst accept_loop.simps) simp

lemma accept_loop_step:
  "\<not> acc + count_tokens tokenizer child > req \<Longrightarrow>
   accept_loop tokenizer req acc idx child (c # cs) =
   accept_loop tokenizer req (acc + count_tokens tokenizer child) (idx + 1) c cs"
  by (subst accept_loop.simps) simp

lemma accept_loop_child_mem:
  "accept_loop tokenizer req acc idx child rest = (i, ch, a) \<Longrightarrow> ch \<in> set (child # rest)"
proof (induction rest arbitrary: acc idx child)
  case Nil
  then show ?case
    by (cases "acc + count_tokens tokenizer child > req")
       (simp_all add: accept_loop_break accept_loop_last)
next
  case (Cons c cs)
  show ?case
  proof (cases "acc + count_tokens tokenizer child > req")
    case True
    with Cons.prems show ?thesis by (simp add: accept_loop_break)
  next
    case False
    with Cons.prems
    have "accept_loop tokenizer req (acc + count_tokens tokenizer child) (idx + 1) c cs = (i, ch, a)"
      by (simp add: accept_loop_step)
    from Cons.IH [OF this] show ?thesis by simp
  qed
qed

lemma size_child_less: "c \<in> set (getchildren ele) \<Longrightarrow> size c < size ele"
proof (cases ele)
  case (Element t a tx ta cs)
  assume "c \<in> set (getchildren ele)"
  with Element have "c \<in> set cs" by simp
  then have "size c \<le> size_list size cs" by (simp add: size_list_estimation')
  with Element show ?thesis by simp
next
  case (Comment tx ta)
  assume "c \<in> set (getchildren ele)"
  with Comment show ?thesis by simp
qed

text \<open>
  \<^verbatim>\<open>prune_by_tokens(tokenizer, ele, max_tokens, reversed)\<close> mutates \<^verbatim>\<open>ele\<close> in place;
  the model returns the state of \<^verbatim>\<open>ele\<close> when the call returns, or the exception it
  raises. The parameter \<^verbatim>\<open>reversed\<close> hides Python's builtin of that name inside the
  function, so \<^verbatim>\<open>reversed(children)\<close> calls a \<^verbatim>\<open>bool\<close>: with \<^verbatim>\<open>reversed=True\<close> the
  call raises \<^verbatim>\<open>TypeError\<close> on that line, after the children have been detached. The
  recursive call receives the boundary child, which is attached to \<^verbatim>\<open>ele\<close> at position
  \<^verbatim>\<open>idx\<close> by then, so its new state takes that place. (The guard \<^verbatim>\<open>ele is None\<close>
  concerns a null reference; a value of type \<^typ>\<open>node\<close> is never null.)
\<close>

function prune_by_tokens ::
  "(string \<Rightarrow> nat) \<Rightarrow> node \<Rightarrow> int \<Rightarrow> bool \<Rightarrow> error + node" where
  "prune_by_tokens tokenizer ele max_tokens reversed =
     (let total_token = count_tokens tokenizer ele in
      if total_token \<le> max_tokens then Inr ele
      else
        let children = getchildren ele;
            ele1 = remove_children ele;
            self_tokens = count_tokens tokenizer ele1;
            required_tokens = max_tokens - self_tokens
        in
        if reversed then Inl TypeError
        else (case children of
                [] \<Rightarrow> Inr ele1
              | c # cs \<Rightarrow>
                  (case accept_loop tokenizer required_tokens 0 0 c cs of
                     (idx, child, acc_tokens) \<Rightarrow>
                       (case prune_by_tokens tokenizer child (required_tokens - acc_tokens) reversed of
                          Inl e \<Rightarrow> Inl e
                        | Inr child' \<Rightarrow> Inr (extend ele1 (take idx children @ [child']))))))"
  by pat_completeness auto
termination
proof (relation "measure (\<lambda>(tokenizer, ele, max_tokens, reversed). size ele)", goal_cases)
  case 1
  show ?case by simp
next
  case (2 tokenizer ele max_tokens reversed total_token children ele1 self_tokens
          required_tokens c cs idx y child acc_tokens)
  from 2 have "accept_loop tokenizer required_tokens 0 0 c cs = (idx, child, acc_tokens)"
    by simp
  then have "child \<in> set (c # cs)"
    by (rule accept_loop_child_mem)
  moreover from 2 have "c # cs = getchildren ele"
    by simp
  ultimately have "child \<in> set (getchildren ele)"
    by simp
  then show ?case
    by (simp add: size_child_less)
qed

declare prune_by_tokens.simps [simp del]


text \<open>One step of \<^const>\<open>prune_by_tokens\<close>, branch by branch.\<close>

lemma prune_fits:
  "count_tokens tokenizer ele \<le> max_tokens \<Longrightarrow>
   prune_by_tokens tokenizer ele max_tokens reversed = Inr ele"
  by (subst prune_by_tokens.simps) simp

lemma prune_reversed_raises:
  "\<not> count_tokens tokenizer ele \<le> max_tokens \<Longrightarrow>
   prune_by_tokens tokenizer ele max_tokens True = Inl TypeError"
  by (subst prune_by_tokens.simps) simp

lemma prune_no_children:
  "\<not> count_tokens tokenizer ele \<le> max_tokens \<Longrightarrow> getchildren ele = [] \<Longrightarrow>
   prune_by_tokens tokenizer ele max_tokens False = Inr (remove_children ele)"
  by (subst prune_by_tokens.simps) simp

lemma prune_step:
  "\<not> count_tokens tokenizer ele \<le> max_tokens \<Longrightarrow> getchildren ele = c # cs \<Longrightarrow>
   accept_loop tokenizer (max_tokens - count_tokens tokenizer (remove_children ele)) 0 0 c cs
     = (idx, child, acc_tokens) \<Longrightarrow>
   prune_by_tokens tokenizer ele max_tokens False =
     (case prune_by_tokens tokenizer child
             (max_tokens - count_tokens tokenizer (remove_children ele) - acc_tokens) False of
        Inl e \<Rightarrow> Inl e
      | Inr child' \<Rightarrow> Inr (extend (remove_children ele) (take idx (c # cs) @ [child'])))"
  by (subst prune_by_tokens.simps) (simp add: Let_def)

text \<open>Favor-left pruning always returns: it raises nothing at any depth.\<close>

lemma prune_left_returns:
  "\<exists>r. prune_by_tokens tokenizer ele max_tokens False = Inr r"
proof (induction "size ele" arbitrary: ele max_tokens rule: less_induct)
  case less
  show ?case
  proof (cases "count_tokens tokenizer ele \<le> max_tokens")
    case True
    then show ?thesis by (simp add: prune_fits)
  next
    case over: False
    show ?thesis
    proof (cases "getchildren ele")
      case Nil
      with over show ?thesis by (simp add: prune_no_children)
    next
      case (Cons c cs)
      obtain idx child acc_tokens where
        loop: "accept_loop tokenizer (max_tokens - count_tokens tokenizer (remove_children ele)) 0 0 c cs
                 = (idx, child, acc_tokens)"
        by (metis prod_cases3)
      from loop have "child \<in> set (c # cs)"
        by (rule accept_loop_child_mem)
      with Cons have "size child < size ele"
        by (simp add: size_child_less)
      from less [OF this] obtain r where
        "prune_by_tokens tokenizer child
           (max_tokens - count_tokens tokenizer (remove_children ele) - acc_tokens) False = Inr r"
        by blast
      with prune_step [OF over Cons loop] show ?thesis by simp
    qed
  qed
qed

text \<open>
  What the acceptance loop guarantees: it stops at a position of the list, on the child at
  that position, and the children before that position have all been accepted within
  the budget.
\<close>

lemma count_tokens_nonneg: "0 \<le> count_tokens tokenizer ele"
  by (simp add: count_tokens_def)

lemma sum_counts_nonneg: "0 \<le> sum_list (map (count_tokens tokenizer) xs)"
  by (induction xs) (simp_all add: count_tokens_nonneg)




subsection \<open>Example trees\<close>

text \<open>
  \<^verbatim>\<open><div><p>hello</p></div>\<close> and \<^verbatim>\<open><div><p>a</p><p>b</p></div>\<close>; the tokenizer of
  the examples is character-level, one token per character.
\<close>

definition p_hello :: node where
  "p_hello = Element ''p'' [] (Some ''hello'') None []"

definition div_hello :: node where
  "div_hello = Element ''div'' [] None None [p_hello]"

definition div_two_p :: node where
  "div_two_p = Element ''div'' [] None None
     [Element ''p'' [] (Some ''a'') None [], Element ''p'' [] (Some ''b'') None []]"

lemma count_p_hello: "count_tokens length p_hello = 12"
  by (simp add: p_hello_def count_tokens_def attrs_string_def opt_text_def)

lemma count_div_hello: "count_tokens length div_hello = 23"
  by (simp add: div_hello_def p_hello_def count_tokens_def attrs_string_def opt_text_def)

lemma count_div_hello_shell: "count_tokens length (remove_children div_hello) = 6"
  by (simp add: div_hello_def count_tokens_def attrs_string_def opt_text_def)

lemma count_div_two_p: "count_tokens length div_two_p = 27"
  by (simp add: div_two_p_def count_tokens_def attrs_string_def opt_text_def)

lemma prune_p_hello:
  "max_tokens < 12 \<Longrightarrow> prune_by_tokens length p_hello max_tokens False = Inr p_hello"
proof -
  assume "max_tokens < 12"
  then have "\<not> count_tokens length p_hello \<le> max_tokens"
    by (simp add: count_p_hello)
  moreover have "getchildren p_hello = []" "remove_children p_hello = p_hello"
    by (simp_all add: p_hello_def)
  ultimately show ?thesis
    using prune_no_children [of length p_hello max_tokens] by simp
qed

lemma prune_div_hello:
  "max_tokens < 18 \<Longrightarrow> prune_by_tokens length div_hello max_tokens False = Inr div_hello"
proof -
  assume small: "max_tokens < 18"
  then have over: "\<not> count_tokens length div_hello \<le> max_tokens"
    by (simp add: count_div_hello)
  have kids: "getchildren div_hello = p_hello # []"
    by (simp add: div_hello_def)
  from small have loop:
    "accept_loop length (max_tokens - count_tokens length (remove_children div_hello)) 0 0 p_hello []
       = (0, p_hello, 0)"
    by (simp add: accept_loop_break count_div_hello_shell count_p_hello)
  from small have "prune_by_tokens length p_hello
      (max_tokens - count_tokens length (remove_children div_hello) - 0) False = Inr p_hello"
    by (simp add: prune_p_hello count_div_hello_shell)
  with prune_step [OF over kids loop] show ?thesis
    by (simp add: div_hello_def)
qed



subsection \<open>Claims about the budget pruner\<close>




text \<open>
  C2 describes the favor-right direction: children considered in reverse document order,
  the kept slice reversed again before it is re-attached. The code never gets there:
  inside \<^verbatim>\<open>prune_by_tokens\<close> the name \<^verbatim>\<open>reversed\<close> is the Boolean parameter, so
  \<^verbatim>\<open>reversed(children)\<close> raises \<^verbatim>\<open>TypeError\<close> as soon as the element is over budget.
  With one token per character, \<^verbatim>\<open><div><p>a</p><p>b</p></div>\<close> has 27 tokens; with
  \<^verbatim>\<open>max_tokens = 20\<close> and \<^verbatim>\<open>reversed=True\<close> the call raises.
\<close>

theorem prune_by_tokens_favor_right_raises:
  "\<not> count_tokens length div_two_p \<le> 20 \<and>
   prune_by_tokens length div_two_p 20 True = Inl TypeError"
  by (simp add: prune_reversed_raises count_div_two_p)

text \<open>
  C5, as stated: when the element is over budget and \<^verbatim>\<open>max_tokens\<close> minus the shell's
  token count is at most zero, the element has no children when \<^verbatim>\<open>prune_by_tokens\<close>
  returns. This fails: the loop breaks on the first child and \<^verbatim>\<open>children[: idx + 1]\<close>
  re-attaches it. With one token per character and \<^verbatim>\<open>max_tokens = 5\<close>,
  \<^verbatim>\<open><div><p>hello</p></div>\<close> (23 tokens, shell 6) keeps its child.
\<close>

theorem prune_by_tokens_shell_over_budget_counterexample:
  "\<not> count_tokens length div_hello \<le> 5 \<and>
   5 - count_tokens length (remove_children div_hello) \<le> 0 \<and>
   prune_by_tokens length div_hello 5 False = Inr div_hello \<and>
   getchildren div_hello \<noteq> []"
  by (simp add: prune_div_hello count_div_hello count_div_hello_shell)
     (simp add: div_hello_def)

text \<open>
  C5, amended (favor-left): when the element is over budget and \<^verbatim>\<open>max_tokens\<close> minus
  the shell's token count is at most zero, \<^verbatim>\<open>prune_by_tokens\<close> returns with the shell
  unchanged; the element has no children then if it had none before, and if it had
  children and the token count of the first one exceeds \<^verbatim>\<open>max_tokens\<close> minus the
  shell's token count (as every positive count does), it has exactly one child: the
  first child, pruned recursively with that budget.
\<close>

theorem prune_by_tokens_shell_over_budget:
  assumes over: "\<not> count_tokens tokenizer ele \<le> max_tokens"
    and shell: "max_tokens - count_tokens tokenizer (remove_children ele) \<le> 0"
  shows "\<exists>ele'. prune_by_tokens tokenizer ele max_tokens False = Inr ele' \<and>
           remove_children ele' = remove_children ele \<and>
           (getchildren ele = [] \<longrightarrow> getchildren ele' = []) \<and>
           (\<forall>c cs. getchildren ele = c # cs \<and>
                   max_tokens - count_tokens tokenizer (remove_children ele)
                     < count_tokens tokenizer c \<longrightarrow>
              (\<exists>c'. prune_by_tokens tokenizer c
                      (max_tokens - count_tokens tokenizer (remove_children ele)) False = Inr c' \<and>
                    getchildren ele' = [c']))"
proof (cases ele)
  case (Comment tx ta)
  with over have "prune_by_tokens tokenizer ele max_tokens False = Inr ele"
    using prune_no_children [of tokenizer ele max_tokens] by simp
  with Comment show ?thesis by simp
next
  case (Element t a tx ta kids)
  show ?thesis
  proof (cases kids)
    case Nil
    with Element over have "prune_by_tokens tokenizer ele max_tokens False = Inr ele"
      using prune_no_children [of tokenizer ele max_tokens] by simp
    with Element Nil show ?thesis by simp
  next
    case (Cons c cs)
    let ?req = "max_tokens - count_tokens tokenizer (remove_children ele)"
    from Element Cons have kids_eq: "getchildren ele = c # cs" by simp
    obtain idx child acc_tokens where
      loop: "accept_loop tokenizer ?req 0 0 c cs = (idx, child, acc_tokens)"
      by (metis prod_cases3)
    obtain child' where
      rec: "prune_by_tokens tokenizer child (?req - acc_tokens) False = Inr child'"
      using prune_left_returns by blast
    from prune_step [OF over kids_eq loop] rec
    have res: "prune_by_tokens tokenizer ele max_tokens False
                 = Inr (Element t a tx ta (take idx (c # cs) @ [child']))"
      using Element by simp
    have first: "getchildren (Element t a tx ta (take idx (c # cs) @ [child'])) = [child'] \<and>
                 prune_by_tokens tokenizer c ?req False = Inr child'"
      if big: "?req < count_tokens tokenizer c"
    proof -
      from big have "accept_loop tokenizer ?req 0 0 c cs = (0, c, 0)"
        by (simp add: accept_loop_break)
      with loop have "idx = 0" "child = c" "acc_tokens = 0" by simp_all
      with rec show ?thesis by simp
    qed
    from res first Element Cons show ?thesis
      by auto
  qed
qed

theorem prune_by_tokens_shell_over_budget_witness:
  "\<not> count_tokens length p_hello \<le> 5 \<and>
   5 - count_tokens length (remove_children p_hello) \<le> 0 \<and>
   getchildren p_hello = [] \<and>
   (\<exists>ele'. prune_by_tokens length p_hello 5 False = Inr ele' \<and> getchildren ele' = []) \<and>
   \<not> count_tokens length div_hello \<le> 5 \<and>
   5 - count_tokens length (remove_children div_hello) \<le> 0 \<and>
   getchildren div_hello = [p_hello] \<and>
   5 - count_tokens length (remove_children div_hello) < count_tokens length p_hello \<and>
   (\<exists>ele' c'. prune_by_tokens length div_hello 5 False = Inr ele' \<and>
      prune_by_tokens length p_hello (5 - count_tokens length (remove_children div_hello)) False
        = Inr c' \<and>
      getchildren ele' = [c'])"
proof -
  have leaf: "getchildren p_hello = []" "remove_children p_hello = p_hello"
    by (simp_all add: p_hello_def)
  have over1: "\<not> count_tokens length p_hello \<le> 5"
    by (simp add: count_p_hello)
  have shell1: "5 - count_tokens length (remove_children p_hello) \<le> 0"
    by (simp add: leaf count_p_hello)
  have kids: "getchildren div_hello = [p_hello]"
    by (simp add: div_hello_def)
  have over2: "\<not> count_tokens length div_hello \<le> 5"
    by (simp add: count_div_hello)
  have shell2: "5 - count_tokens length (remove_children div_hello) \<le> 0"
    by (simp add: count_div_hello_shell)
  have big: "5 - count_tokens length (remove_children div_hello) < count_tokens length p_hello"
    by (simp add: count_div_hello_shell count_p_hello)
  from prune_by_tokens_shell_over_budget [OF over1 shell1] leaf
  have part1: "\<exists>ele'. prune_by_tokens length p_hello 5 False = Inr ele' \<and> getchildren ele' = []"
    by auto
  from prune_by_tokens_shell_over_budget [OF over2 shell2] kids big
  have part2: "\<exists>ele' c'. prune_by_tokens length div_hello 5 False = Inr ele' \<and>
      prune_by_tokens length p_hello (5 - count_tokens length (remove_children div_hello)) False
        = Inr c' \<and>
      getchildren ele' = [c']"
    by auto
  from leaf over1 shell1 kids over2 shell2 big part1 part2 show ?thesis
    by blast
qed

section \<open>The sanitizer\<close>

text \<open>\<^verbatim>\<open>s.startswith(p)\<close>.\<close>

definition startswith :: "string \<Rightarrow> string \<Rightarrow> bool" where
  "startswith s p = prefix p s"

text \<open>
  \<^verbatim>\<open>re.search(r"display\s*:\s*none", s)\<close>. The class \<^verbatim>\<open>\s\<close> of a \<^verbatim>\<open>str\<close> pattern is
  Unicode white space; \<open>is_space\<close> lists its members among the characters of
  \<^typ>\<open>char\<close>. Neither \<^verbatim>\<open>:\<close> nor \<^verbatim>\<open>n\<close> is white space, so the greedy \<^verbatim>\<open>\s*\<close> never
  has to give anything back.
\<close>

definition is_space :: "char \<Rightarrow> bool" where
  "is_space c = (let n = (of_char c :: nat) in
     (9 \<le> n \<and> n \<le> 13) \<or> (28 \<le> n \<and> n \<le> 32) \<or> n = 0x85 \<or> n = 0xA0)"

definition display_none_here :: "string \<Rightarrow> bool" where
  "display_none_here s =
     (startswith s ''display'' \<and>
      (case dropWhile is_space (drop 7 s) of
         [] \<Rightarrow> False
       | c # r \<Rightarrow> c = CHR '':'' \<and> startswith (dropWhile is_space r) ''none''))"

fun search_display_none :: "string \<Rightarrow> bool" where
  "search_display_none [] = display_none_here []"
| "search_display_none (c # s) = (display_none_here (c # s) \<or> search_display_none s)"

text \<open>Attribute access: \<^verbatim>\<open>k in ele.attrib\<close>, \<^verbatim>\<open>ele.attrib[k]\<close>, \<^verbatim>\<open>del ele.attrib[k]\<close>.\<close>

definition has_attr :: "string \<Rightarrow> (string \<times> string) list \<Rightarrow> bool" where
  "has_attr k a = (map_of a k \<noteq> None)"

definition del_attr :: "string \<Rightarrow> (string \<times> string) list \<Rightarrow> (string \<times> string) list" where
  "del_attr k a = filter (\<lambda>(k', v). k' \<noteq> k) a"

text \<open>
  The attribute rules of \<^verbatim>\<open>_clean_html\<close> (the block under \<^verbatim>\<open>if ele.attrib:\<close>): the loop
  over \<^verbatim>\<open>list(ele.attrib.keys())\<close>, whose body is \<open>strip_step\<close>, deletes every key
  other than \<^verbatim>\<open>class\<close> and \<^verbatim>\<open>id\<close>; the \<^verbatim>\<open>href\<close> and \<^verbatim>\<open>img src\<close> rules follow.
\<close>

definition strip_step :: "string \<Rightarrow> (string \<times> string) list \<Rightarrow> (string \<times> string) list" where
  "strip_step key acc = (if key \<notin> set [''class'', ''id''] then del_attr key acc else acc)"

definition strip_attributes :: "string \<Rightarrow> (string \<times> string) list \<Rightarrow> (string \<times> string) list" where
  "strip_attributes tag a =
     (if a \<noteq> [] then
        let a1 = fold strip_step (map fst a) a;
            a2 = (case map_of a1 ''href'' of
                    Some v \<Rightarrow> if startswith v ''javascript:'' then del_attr ''href'' a1 else a1
                  | None \<Rightarrow> a1);
            a3 = (if tag = ''img'' \<and> has_attr ''src'' a2 then del_attr ''src'' a2 else a2)
        in a3
      else a)"

text \<open>
  \<^verbatim>\<open>_clean_html(ele)\<close>. The first component of the result says whether \<^verbatim>\<open>_remove(ele)\<close>
  was called, the second is the state of \<^verbatim>\<open>ele\<close> afterwards. \<^verbatim>\<open>_remove\<close> changes the
  parent's child list when there is a parent, never the node. Every node of an lxml tree
  is an instance of \<^verbatim>\<open>etree._Element\<close>, so the first test of the source never fires;
  the second fires on comments, whose tag is the function named \<^verbatim>\<open>Comment\<close>.
  The list \<^verbatim>\<open>INTERACTIVE_ELEMENTS\<close> is imported from a module that is not part of the
  sources at hand; it is the parameter \<open>interactive\<close>, a list of tag names.
\<close>

fun priv_clean_html :: "string list \<Rightarrow> node \<Rightarrow> bool \<times> node" where
  "priv_clean_html interactive (Comment tx ta) = (True, Comment tx ta)"
| "priv_clean_html interactive (Element t a tx ta cs) =
     (if t \<in> set interactive then (True, Element t a tx ta cs)
      else if (case map_of a ''style'' of None \<Rightarrow> False | Some v \<Rightarrow> search_display_none v)
      then (False, set_text (clear (Element t a tx ta cs)) (Some ''''))
      else (False, Element t (strip_attributes t a) tx ta cs))"

text \<open>
  \<^verbatim>\<open>post_order_traversal(tree, func)\<close>: the children first, then the node. lxml's child
  iterator fetches the next sibling before it hands out the current child, so a callback
  that detaches the current child does not make the loop skip one. A callback is
  modelled by what the two callbacks of the source can do: change the node it is given
  and ask for it to be detached from its parent. A child visited by the loop has a
  parent, so the request is granted; its tail leaves with it.
\<close>

fun post_order_traversal :: "(node \<Rightarrow> bool \<times> node) \<Rightarrow> node \<Rightarrow> bool \<times> node" where
  "post_order_traversal func (Element t a tx ta cs) =
     func (Element t a tx ta
       (concat (map (\<lambda>c. case post_order_traversal func c of
                              (detach, c') \<Rightarrow> if detach then [] else [c']) cs)))"
| "post_order_traversal func (Comment tx ta) = func (Comment tx ta)"

text \<open>The children that are still attached after the loop over \<^verbatim>\<open>iterchildren()\<close>.\<close>

definition kept_children :: "(node \<Rightarrow> bool \<times> node) \<Rightarrow> node list \<Rightarrow> node list" where
  "kept_children func cs =
     concat (map (\<lambda>c. case post_order_traversal func c of
                            (detach, c') \<Rightarrow> if detach then [] else [c']) cs)"

text \<open>
  The two kinds of argument the entry points accept: an \<^verbatim>\<open>_ElementTree\<close>, whose
  \<^verbatim>\<open>getroot()\<close> may be \<^verbatim>\<open>None\<close>, or an \<^verbatim>\<open>_Element\<close>.
\<close>

datatype etree = ElementTree "node option" | Elem node

fun root_of :: "etree \<Rightarrow> node option" where
  "root_of (ElementTree r) = r"
| "root_of (Elem e) = Some e"

text \<open>
  \<^verbatim>\<open>clean_html(ele)\<close> returns its argument after the traversal. On an empty
  \<^verbatim>\<open>_ElementTree\<close> the traversal calls \<^verbatim>\<open>iterchildren\<close> on \<^verbatim>\<open>None\<close>. A request to
  detach the root changes at most the child list of the root's parent, which is not part
  of the tree that is returned.
\<close>

definition clean_html :: "string list \<Rightarrow> etree \<Rightarrow> error + etree" where
  "clean_html interactive ele =
     (case ele of
        ElementTree None \<Rightarrow> Inl AttributeError
      | ElementTree (Some root) \<Rightarrow>
          Inr (ElementTree (Some (snd (post_order_traversal (priv_clean_html interactive) root))))
      | Elem e \<Rightarrow> Inr (Elem (snd (post_order_traversal (priv_clean_html interactive) e))))"

text \<open>Every node reachable from a root, the root first.\<close>

fun nodes :: "node \<Rightarrow> node list" where
  "nodes (Element t a tx ta cs) = Element t a tx ta cs # concat (map nodes cs)"
| "nodes (Comment tx ta) = [Comment tx ta]"

text \<open>What C3 asks of a node: only \<^verbatim>\<open>class\<close> and \<^verbatim>\<open>id\<close>, and no \<^verbatim>\<open>javascript:\<close> link.\<close>

definition only_class_id :: "node \<Rightarrow> bool" where
  "only_class_id n = list_all (\<lambda>(k, v). k = ''class'' \<or> k = ''id'') (attrib n)"

definition no_javascript_href :: "node \<Rightarrow> bool" where
  "no_javascript_href n =
     (case map_of (attrib n) ''href'' of None \<Rightarrow> True | Some v \<Rightarrow> \<not> startswith v ''javascript:'')"

definition sanitized_node :: "node \<Rightarrow> bool" where
  "sanitized_node n = (only_class_id n \<and> no_javascript_href n)"

text \<open>
  Modelled from the spec: the contents of \<^verbatim>\<open>INTERACTIVE_ELEMENTS\<close>
  (\<^verbatim>\<open>feilian.html_constants\<close> is missing from the sources), used only to instantiate the
  parameter in examples. The spec names scripts, forms, inputs, buttons and embeds as
  members of the denylist.
\<close>

definition spec_denylist :: "string list" where
  "spec_denylist = [''script'', ''form'', ''input'', ''button'', ''embed'']"

subsection \<open>Example trees\<close>

text \<open>
  \<^verbatim>\<open><form action="/search"/>\<close>; a \<^verbatim>\<open>div\<close> with an event handler, a script link, a comment
  and a script, and what the sanitizer leaves of it; the hidden \<^verbatim>\<open>div\<close> of C8.
\<close>

definition form_root :: node where
  "form_root = Element ''form'' [(''action'', ''/search'')] None None []"

definition page_div :: node where
  "page_div = Element ''div'' [(''class'', ''main''), (''onclick'', ''go()'')] None None
     [Element ''a'' [(''href'', ''javascript:void(0)'')] (Some ''link'') None [],
      Comment (Some ''note'') None,
      Element ''script'' [] (Some ''x'') None []]"

definition page_div_clean :: node where
  "page_div_clean = Element ''div'' [(''class'', ''main'')] None None
     [Element ''a'' [] (Some ''link'') None []]"

definition hidden_div :: "string \<Rightarrow> node" where
  "hidden_div x = Element ''div'' [(''style'', ''display:none'')] None None
     [Element ''span'' [] (Some x) None []]"

subsection \<open>The attribute rules\<close>

lemma fold_strip_step:
  "fold strip_step ks acc = filter (\<lambda>(k, v). k = ''class'' \<or> k = ''id'' \<or> k \<notin> set ks) acc"
proof (induction ks arbitrary: acc)
  case Nil
  show ?case by simp
next
  case (Cons key ks)
  have "fold strip_step (key # ks) acc = fold strip_step ks (strip_step key acc)"
    by simp
  also have "\<dots> = filter (\<lambda>(k, v). k = ''class'' \<or> k = ''id'' \<or> k \<notin> set ks) (strip_step key acc)"
    by (rule Cons.IH)
  also have "\<dots> = filter (\<lambda>(k, v). k = ''class'' \<or> k = ''id'' \<or> k \<notin> set (key # ks)) acc"
    by (auto simp: strip_step_def del_attr_def intro!: filter_cong)
  finally show ?case .
qed

lemma map_of_filter_keys_None:
  "\<not> P k \<Longrightarrow> map_of (filter (\<lambda>(k, v). P k) a) k = None"
  by (auto simp: map_of_eq_None_iff)

text \<open>
  After the loop only \<^verbatim>\<open>class\<close> and \<^verbatim>\<open>id\<close> are left, so the \<^verbatim>\<open>href\<close> and \<^verbatim>\<open>src\<close> rules
  that follow it find nothing to delete.
\<close>

lemma strip_attributes_filter:
  "strip_attributes t a = filter (\<lambda>(k, v). k = ''class'' \<or> k = ''id'') a"
proof (cases "a = []")
  case True
  then show ?thesis by (simp add: strip_attributes_def)
next
  case False
  let ?keep = "\<lambda>(k :: string, v :: string). k = ''class'' \<or> k = ''id''"
  have a1: "fold strip_step (map fst a) a = filter ?keep a"
    unfolding fold_strip_step by (rule filter_cong) force+
  have href: "map_of (filter ?keep a) ''href'' = None"
    using map_of_filter_keys_None [of "\<lambda>k. k = ''class'' \<or> k = ''id''" "''href''" a] by simp
  have src: "map_of (filter ?keep a) ''src'' = None"
    using map_of_filter_keys_None [of "\<lambda>k. k = ''class'' \<or> k = ''id''" "''src''" a] by simp
  from False show ?thesis
    unfolding strip_attributes_def a1 by (simp add: href src has_attr_def)
qed

lemma strip_attributes_keys:
  "(k, v) \<in> set (strip_attributes t a) \<Longrightarrow> k = ''class'' \<or> k = ''id''"
  by (auto simp: strip_attributes_filter)

lemma strip_attributes_idem:
  "strip_attributes t (strip_attributes t a) = strip_attributes t a"
  by (simp add: strip_attributes_filter)

lemma strip_attributes_Nil: "strip_attributes t [] = []"
  by (simp add: strip_attributes_def)

lemma strip_attributes_no_style:
  "map_of (strip_attributes t a) ''style'' = None"
  using map_of_filter_keys_None [of "\<lambda>k. k = ''class'' \<or> k = ''id''" "''style''" a]
  by (simp add: strip_attributes_filter)

lemma strip_attributes_no_href:
  "map_of (strip_attributes t a) ''href'' = None"
  using map_of_filter_keys_None [of "\<lambda>k. k = ''class'' \<or> k = ''id''" "''href''" a]
  by (simp add: strip_attributes_filter)

lemma sanitized_no_attrs: "attrib y = [] \<Longrightarrow> sanitized_node y"
  by (simp add: sanitized_node_def only_class_id_def no_javascript_href_def)

lemma sanitized_stripped: "sanitized_node (Element t (strip_attributes t a) tx ta cs)"
  by (auto simp: sanitized_node_def only_class_id_def no_javascript_href_def
        strip_attributes_no_href list_all_iff dest: strip_attributes_keys)

subsection \<open>One node\<close>

lemma clean_node_cases:
  "priv_clean_html interactive x = (d, y) \<Longrightarrow>
   (d \<and> y = x \<and> (tag_of x = CommentFactory \<or> tag_of x \<in> Name ` set interactive)) \<or>
   (\<not> d \<and> tag_of x \<noteq> CommentFactory \<and> tag_of x \<notin> Name ` set interactive \<and>
      (\<exists>t a tx ta cs. x = Element t a tx ta cs \<and>
         (y = Element t [] (Some []) None [] \<or> y = Element t (strip_attributes t a) tx ta cs)))"
  by (cases x) (auto split: if_splits)

lemma clean_node_children:
  "priv_clean_html interactive x = (d, y) \<Longrightarrow> getchildren y = getchildren x \<or> getchildren y = []"
  by (cases x) (auto split: if_splits)

lemma clean_node_idem:
  "priv_clean_html interactive x = (d, y) \<Longrightarrow> priv_clean_html interactive y = (d, y)"
proof (cases x)
  case (Comment tx ta)
  assume "priv_clean_html interactive x = (d, y)"
  with Comment show ?thesis by (auto split: if_splits)
next
  case (Element t a tx ta cs)
  assume res: "priv_clean_html interactive x = (d, y)"
  show ?thesis
  proof (cases "t \<in> set interactive")
    case True
    with res Element show ?thesis by auto
  next
    case False
    with clean_node_cases [OF res] Element
    consider "\<not> d" "y = Element t [] (Some []) None []"
      | "\<not> d" "y = Element t (strip_attributes t a) tx ta cs"
      by auto
    then show ?thesis
    proof cases
      case 1
      with False show ?thesis by (simp add: strip_attributes_Nil)
    next
      case 2
      with False show ?thesis
        by (simp add: strip_attributes_no_style strip_attributes_idem)
    qed
  qed
qed

subsection \<open>The traversal\<close>

lemma post_order_Element:
  "post_order_traversal func (Element t a tx ta cs) = func (Element t a tx ta (kept_children func cs))"
  by (simp add: kept_children_def)

declare post_order_traversal.simps(1) [simp del]

lemma kept_children_Nil: "kept_children func [] = []"
  by (simp add: kept_children_def)

lemma kept_children_Cons:
  "kept_children func (c # cs) =
     (if fst (post_order_traversal func c) then [] else [snd (post_order_traversal func c)])
     @ kept_children func cs"
  by (simp add: kept_children_def split: prod.splits)

lemma kept_child:
  "c' \<in> set (kept_children func cs) \<Longrightarrow> \<exists>c \<in> set cs. post_order_traversal func c = (False, c')"
proof (induction cs)
  case Nil
  then show ?case by (simp add: kept_children_Nil)
next
  case (Cons c cs)
  then show ?case
    by (cases "post_order_traversal func c") (auto simp: kept_children_Cons split: if_splits)
qed

lemma kept_children_settled:
  "\<forall>c \<in> set cs. post_order_traversal func c = (False, c) \<Longrightarrow> kept_children func cs = cs"
  by (induction cs) (simp_all add: kept_children_Nil kept_children_Cons)

lemma post_order_settled:
  "\<forall>c \<in> set (getchildren y). post_order_traversal func c = (False, c) \<Longrightarrow>
   post_order_traversal func y = func y"
  by (cases y) (simp_all add: post_order_Element kept_children_settled)

lemma nodes_unfold: "nodes n = n # concat (map nodes (getchildren n))"
  by (cases n) simp_all

lemma list_all_concat_map:
  "(\<And>c. c \<in> set xs \<Longrightarrow> list_all P (h c)) \<Longrightarrow> list_all P (concat (map h xs))"
  by (induction xs) simp_all

text \<open>
  After the traversal of a node, everything below it obeys the attribute rules, and so
  does the node itself unless the callback asked for its removal.
\<close>

lemma clean_tree_sanitized:
  "post_order_traversal (priv_clean_html interactive) n = (d, y) \<Longrightarrow>
   list_all sanitized_node (concat (map nodes (getchildren y))) \<and> (\<not> d \<longrightarrow> sanitized_node y)"
proof (induction n arbitrary: d y)
  case (Comment tx ta)
  then have "priv_clean_html interactive (Comment tx ta) = (d, y)"
    by (simp del: priv_clean_html.simps)
  from clean_node_cases [OF this] have "y = Comment tx ta" by auto
  then show ?case by (simp add: sanitized_no_attrs)
next
  case (Element t a tx ta cs)
  define cs' where "cs' = kept_children (priv_clean_html interactive) cs"
  from Element.prems have res: "priv_clean_html interactive (Element t a tx ta cs') = (d, y)"
    by (simp add: post_order_Element cs'_def)
  have kept: "list_all sanitized_node (nodes c')" if "c' \<in> set cs'" for c'
  proof -
    from that obtain c where c: "c \<in> set cs"
      and run: "post_order_traversal (priv_clean_html interactive) c = (False, c')"
      unfolding cs'_def using kept_child by blast
    from Element.IH [OF c run] show ?thesis
      by (subst nodes_unfold) simp
  qed
  then have all: "list_all sanitized_node (concat (map nodes cs'))"
    by (rule list_all_concat_map)
  from clean_node_cases [OF res]
  consider "d" "y = Element t a tx ta cs'"
    | "\<not> d" "y = Element t [] (Some []) None []"
    | "\<not> d" "y = Element t (strip_attributes t a) tx ta cs'"
    by auto
  then show ?case
  proof cases
    case 1
    with all show ?thesis by simp
  next
    case 2
    then show ?thesis by (simp add: sanitized_no_attrs)
  next
    case 3
    with all show ?thesis by (simp add: sanitized_stripped)
  qed
qed

text \<open>A second traversal finds nothing left to do.\<close>

lemma clean_tree_idem:
  "post_order_traversal (priv_clean_html interactive) n = (d, y) \<Longrightarrow>
   post_order_traversal (priv_clean_html interactive) y = (d, y)"
proof (induction n arbitrary: d y)
  case (Comment tx ta)
  then have res: "priv_clean_html interactive (Comment tx ta) = (d, y)"
    by (simp del: priv_clean_html.simps)
  from clean_node_children [OF res] have "getchildren y = []" by simp
  then have "post_order_traversal (priv_clean_html interactive) y = priv_clean_html interactive y"
    by (simp add: post_order_settled)
  with clean_node_idem [OF res] show ?case by simp
next
  case (Element t a tx ta cs)
  define cs' where "cs' = kept_children (priv_clean_html interactive) cs"
  from Element.prems have res: "priv_clean_html interactive (Element t a tx ta cs') = (d, y)"
    by (simp add: post_order_Element cs'_def)
  have settled: "post_order_traversal (priv_clean_html interactive) c' = (False, c')"
    if "c' \<in> set cs'" for c'
  proof -
    from that obtain c where c: "c \<in> set cs"
      and run: "post_order_traversal (priv_clean_html interactive) c = (False, c')"
      unfolding cs'_def using kept_child by blast
    from Element.IH [OF c run] show ?thesis .
  qed
  from clean_node_children [OF res] have "getchildren y = cs' \<or> getchildren y = []"
    by simp
  with settled have "\<forall>c \<in> set (getchildren y).
      post_order_traversal (priv_clean_html interactive) c = (False, c)"
    by auto
  then have "post_order_traversal (priv_clean_html interactive) y = priv_clean_html interactive y"
    by (rule post_order_settled)
  with clean_node_idem [OF res] show ?case by simp
qed

lemma clean_tree_tag:
  "post_order_traversal (priv_clean_html interactive) n = (d, y) \<Longrightarrow>
   tag_of y = tag_of n \<and> d = (tag_of n = CommentFactory \<or> tag_of n \<in> Name ` set interactive)"
proof (cases n)
  case (Comment tx ta)
  assume "post_order_traversal (priv_clean_html interactive) n = (d, y)"
  with Comment have "priv_clean_html interactive (Comment tx ta) = (d, y)"
    by (simp del: priv_clean_html.simps)
  from clean_node_cases [OF this] Comment show ?thesis by auto
next
  case (Element t a tx ta cs)
  assume "post_order_traversal (priv_clean_html interactive) n = (d, y)"
  with Element have "priv_clean_html interactive
      (Element t a tx ta (kept_children (priv_clean_html interactive) cs)) = (d, y)"
    by (simp add: post_order_Element)
  from clean_node_cases [OF this] Element show ?thesis by auto
qed

text \<open>
  A node whose tag is on the denylist leaves the traversal with its own attributes, text
  and tail; only its children have been sanitized.
\<close>

lemma clean_tree_denylisted:
  "post_order_traversal (priv_clean_html interactive) n = (d, y) \<Longrightarrow>
   tag_of n \<in> Name ` set interactive \<Longrightarrow>
   attrib y = attrib n \<and> text_of y = text_of n \<and> tail_of y = tail_of n \<and>
   getchildren y = kept_children (priv_clean_html interactive) (getchildren n)"
proof (cases n)
  case (Comment tx ta)
  assume "tag_of n \<in> Name ` set interactive"
  with Comment show ?thesis by auto
next
  case (Element t a tx ta cs)
  assume run: "post_order_traversal (priv_clean_html interactive) n = (d, y)"
    and deny: "tag_of n \<in> Name ` set interactive"
  from deny Element have "t \<in> set interactive" by auto
  with run Element have "y = Element t a tx ta (kept_children (priv_clean_html interactive) cs)"
    by (simp add: post_order_Element)
  with Element show ?thesis by simp
qed

subsection \<open>Evaluating the examples\<close>

lemma search_display_none_example: "search_display_none ''display:none''"
  by (simp add: display_none_here_def startswith_def is_space_def)

lemma clean_form_root: "clean_html spec_denylist (Elem form_root) = Inr (Elem form_root)"
  by (simp add: clean_html_def form_root_def spec_denylist_def post_order_Element kept_children_Nil)

lemma clean_page_div: "clean_html spec_denylist (Elem page_div) = Inr (Elem page_div_clean)"
  by (simp add: clean_html_def page_div_def page_div_clean_def spec_denylist_def
      post_order_Element kept_children_Nil kept_children_Cons strip_attributes_filter)

lemma clean_hidden_div:
  "''div'' \<notin> set interactive \<Longrightarrow>
   post_order_traversal (priv_clean_html interactive) (hidden_div x)
     = (False, Element ''div'' [] (Some '''') None [])"
  by (simp add: hidden_div_def post_order_Element search_display_none_example
      del: search_display_none.simps)

subsection \<open>Claims about the sanitizer\<close>

text \<open>
  C3, as stated: after \<^verbatim>\<open>clean_html\<close> returns, no element of the tree, the root included,
  carries an attribute other than \<^verbatim>\<open>class\<close> or \<^verbatim>\<open>id\<close>. This fails at the root: when the
  root's tag is on the denylist, \<^verbatim>\<open>_clean_html\<close> calls \<^verbatim>\<open>_remove\<close>, which leaves a node
  without parent alone, and returns before the attribute rules. With forms on the
  denylist, \<^verbatim>\<open><form action="/search"/>\<close> keeps its \<^verbatim>\<open>action\<close>.
\<close>

theorem clean_html_attributes_counterexample:
  "clean_html spec_denylist (Elem form_root) = Inr (Elem form_root) \<and>
   \<not> list_all sanitized_node (nodes form_root)"
  by (simp add: clean_form_root)
     (simp add: form_root_def sanitized_node_def only_class_id_def)

text \<open>
  C3, amended: for every input tree, after \<^verbatim>\<open>clean_html\<close> returns, no node below the root
  carries an attribute other than \<^verbatim>\<open>class\<close> or \<^verbatim>\<open>id\<close> or an \<^verbatim>\<open>href\<close> that begins with
  \<^verbatim>\<open>javascript:\<close>, and neither does the root unless its tag is on the interactive
  denylist; a root whose tag is on the denylist keeps its attributes, its text and its
  tail as they were, and its children are the sanitized children that were not removed.
\<close>

theorem clean_html_attributes:
  assumes "clean_html interactive t = Inr t'"
  shows "\<exists>r r'. root_of t = Some r \<and> root_of t' = Some r' \<and> tag_of r' = tag_of r \<and>
           list_all sanitized_node (concat (map nodes (getchildren r'))) \<and>
           (tag_of r \<notin> Name ` set interactive \<longrightarrow> list_all sanitized_node (nodes r')) \<and>
           (tag_of r \<in> Name ` set interactive \<longrightarrow>
              attrib r' = attrib r \<and> text_of r' = text_of r \<and> tail_of r' = tail_of r \<and>
              getchildren r' = kept_children (priv_clean_html interactive) (getchildren r))"
proof -
  from assms obtain r where r: "root_of t = Some r"
    and r': "root_of t' = Some (snd (post_order_traversal (priv_clean_html interactive) r))"
    by (auto simp: clean_html_def split: etree.splits option.splits)
  obtain d y where run: "post_order_traversal (priv_clean_html interactive) r = (d, y)"
    by (cases "post_order_traversal (priv_clean_html interactive) r")
  from clean_tree_sanitized [OF run]
  have below: "list_all sanitized_node (concat (map nodes (getchildren y)))"
    and kept: "\<not> d \<Longrightarrow> sanitized_node y"
    by simp_all
  from clean_tree_tag [OF run]
  have tag: "tag_of y = tag_of r"
    and d: "d = (tag_of r = CommentFactory \<or> tag_of r \<in> Name ` set interactive)"
    by simp_all
  have root: "sanitized_node y" if "tag_of r \<notin> Name ` set interactive"
  proof (cases d)
    case False
    then show ?thesis by (rule kept)
  next
    case True
    with d that have "tag_of y = CommentFactory" by (simp add: tag)
    then have "attrib y = []" by (cases y) simp_all
    then show ?thesis by (rule sanitized_no_attrs)
  qed
  have clean: "list_all sanitized_node (nodes y)" if "tag_of r \<notin> Name ` set interactive"
    using root [OF that] below by (subst nodes_unfold) simp
  have as_is: "attrib y = attrib r \<and> text_of y = text_of r \<and> tail_of y = tail_of r \<and>
      getchildren y = kept_children (priv_clean_html interactive) (getchildren r)"
    if "tag_of r \<in> Name ` set interactive"
    using run that by (rule clean_tree_denylisted)
  from r r' run tag below clean as_is show ?thesis by simp
qed

theorem clean_html_attributes_witness:
  "clean_html spec_denylist (Elem page_div) = Inr (Elem page_div_clean) \<and>
   tag_of page_div \<notin> Name ` set spec_denylist \<and>
   list_all sanitized_node (nodes page_div_clean) \<and>
   clean_html spec_denylist (Elem form_root) = Inr (Elem form_root) \<and>
   tag_of form_root \<in> Name ` set spec_denylist \<and>
   attrib form_root = [(''action'', ''/search'')] \<and>
   getchildren form_root = kept_children (priv_clean_html spec_denylist) (getchildren form_root)"
proof -
  have tag: "tag_of page_div \<notin> Name ` set spec_denylist"
    by (simp add: page_div_def spec_denylist_def)
  have deny: "tag_of form_root \<in> Name ` set spec_denylist"
    by (simp add: form_root_def spec_denylist_def)
  have attrs: "attrib form_root = [(''action'', ''/search'')]"
    by (simp add: form_root_def)
  from clean_html_attributes [OF clean_page_div] tag
  have clean: "list_all sanitized_node (nodes page_div_clean)" by simp
  from clean_html_attributes [OF clean_form_root] deny
  have kept: "getchildren form_root
      = kept_children (priv_clean_html spec_denylist) (getchildren form_root)" by simp
  from clean_page_div tag clean clean_form_root deny attrs kept show ?thesis by blast
qed

text \<open>
  C7: for every tree, the serialisation after two applications of \<^verbatim>\<open>clean_html\<close> is the
  serialisation after one. The second application returns the very tree it is given.
\<close>

theorem clean_html_idempotent:
  assumes "clean_html interactive t = Inr t1"
  shows "\<exists>t2. clean_html interactive t1 = Inr t2 \<and> t2 = t1 \<and>
           map_option to_string (root_of t2) = map_option to_string (root_of t1)"
proof -
  have again: "snd (post_order_traversal (priv_clean_html interactive)
                  (snd (post_order_traversal (priv_clean_html interactive) r)))
               = snd (post_order_traversal (priv_clean_html interactive) r)" for r
  proof -
    obtain d y where run: "post_order_traversal (priv_clean_html interactive) r = (d, y)"
      by (cases "post_order_traversal (priv_clean_html interactive) r")
    from clean_tree_idem [OF run] run show ?thesis by simp
  qed
  from assms have "clean_html interactive t1 = Inr t1"
    by (auto simp: clean_html_def again split: etree.splits option.splits)
  then show ?thesis by simp
qed

theorem clean_html_idempotent_witness:
  "clean_html spec_denylist (Elem page_div) = Inr (Elem page_div_clean) \<and>
   (\<exists>t2. clean_html spec_denylist (Elem page_div_clean) = Inr t2 \<and>
      map_option to_string (root_of t2) = Some (to_string page_div_clean))"
  using clean_html_idempotent [OF clean_page_div] clean_page_div by simp

text \<open>
  C8: sanitizing \<^verbatim>\<open><div style="display:none"><span>x</span></div>\<close> keeps the \<^verbatim>\<open>div\<close>
  (no removal is asked for) and leaves it without children, with an empty text and
  without attributes; it is written \<^verbatim>\<open><div></div>\<close>. The tag \<^verbatim>\<open>div\<close> must not be on the
  denylist.
\<close>

theorem clean_html_hidden_div:
  assumes "''div'' \<notin> set interactive"
  shows "post_order_traversal (priv_clean_html interactive) (hidden_div x)
           = (False, Element ''div'' [] (Some '''') None []) \<and>
         clean_html interactive (Elem (hidden_div x))
           = Inr (Elem (Element ''div'' [] (Some '''') None [])) \<and>
         clean_html interactive (ElementTree (Some (hidden_div x)))
           = Inr (ElementTree (Some (Element ''div'' [] (Some '''') None []))) \<and>
         getchildren (Element ''div'' [] (Some '''') None []) = [] \<and>
         attrib (Element ''div'' [] (Some '''') None []) = [] \<and>
         to_string (Element ''div'' [] (Some '''') None []) = ''<div></div>''"
  using clean_hidden_div [OF assms, of x]
  by (simp add: clean_html_def attrs_string_def opt_text_def)

theorem clean_html_hidden_div_witness:
  "''div'' \<notin> set spec_denylist \<and>
   clean_html spec_denylist (Elem (hidden_div ''x''))
     = Inr (Elem (Element ''div'' [] (Some '''') None []))"
proof -
  have h: "''div'' \<notin> set spec_denylist"
    by (simp add: spec_denylist_def)
  from clean_html_hidden_div [OF h, of "''x''"] h show ?thesis by simp
qed

section \<open>Addresses and traversal\<close>

text \<open>
  An f-string renders a string tag as it is. The tag of a comment is a function object,
  rendered as \<^verbatim>\<open><cyfunction Comment at 0x...>\<close> with a memory address that changes
  from run to run; the model keeps the name and leaves the address out, so the address
  it gives to a comment node is not the program's. No statement below is about the
  address of a comment.
\<close>

fun tag_str :: "tagv \<Rightarrow> string" where
  "tag_str (Name t) = t"
| "tag_str CommentFactory = ''<cyfunction Comment>''"

text \<open>\<^verbatim>\<open>str(n)\<close> for a natural number: its decimal digits.\<close>

definition digit_char :: "nat \<Rightarrow> char" where
  "digit_char d = ''0123456789'' ! d"

fun str_nat :: "nat \<Rightarrow> string" where
  "str_nat n = (if n < 10 then [digit_char n] else str_nat (n div 10) @ [digit_char (n mod 10)])"

declare str_nat.simps [simp del]

text \<open>
  The addressing code that \<^verbatim>\<open>_traverse\<close> and \<^verbatim>\<open>_pre_order_traversal\<close> share: a first loop
  counts the children per tag in a \<^verbatim>\<open>defaultdict(int)\<close>, a second loop numbers the
  children of a tag that occurs more than once, starting from 1.
\<close>

definition tag_counts :: "node list \<Rightarrow> tagv \<Rightarrow> nat" where
  "tag_counts cs = fold (\<lambda>ele m. m(tag_of ele := m (tag_of ele) + 1)) cs (\<lambda>_. 0)"

fun address_loop :: "string \<Rightarrow> (tagv \<Rightarrow> nat) \<Rightarrow> (tagv \<Rightarrow> nat) \<Rightarrow> node list \<Rightarrow> string list" where
  "address_loop xpath counts tag_order [] = []"
| "address_loop xpath counts tag_order (ele # rest) =
     (if counts (tag_of ele) > 1
      then xpath @ ''/'' @ tag_str (tag_of ele) @ ''['' @ str_nat (tag_order (tag_of ele) + 1) @ '']''
      else xpath @ ''/'' @ tag_str (tag_of ele))
     # address_loop xpath counts (tag_order(tag_of ele := tag_order (tag_of ele) + 1)) rest"

definition child_xpaths :: "string \<Rightarrow> node list \<Rightarrow> string list" where
  "child_xpaths xpath cs = address_loop xpath (tag_counts cs) (\<lambda>_. 0) cs"

lemma zip_child_smaller:
  "(ele, x) \<in> set (zip (getchildren root) xs) \<Longrightarrow> size ele < size root"
  by (rule size_child_less) (rule set_zip_leftD)

text \<open>
  \<^verbatim>\<open>_traverse(root, xpath)\<close> is a generator; the model is the list of the pairs it yields.
  A child is yielded by its own generator and once more by the loop of its parent.
\<close>

function priv_traverse :: "node \<Rightarrow> string \<Rightarrow> (node \<times> string) list" where
  "priv_traverse root xpath =
     concat (map (\<lambda>(ele, new_xpath). priv_traverse ele new_xpath @ [(ele, new_xpath)])
               (zip (getchildren root) (child_xpaths xpath (getchildren root))))
     @ [(root, xpath)]"
  by pat_completeness auto
termination
  by (relation "measure (\<lambda>(root, xpath). size root)") (auto intro: zip_child_smaller)

declare priv_traverse.simps [simp del]

text \<open>
  \<^verbatim>\<open>traverse(tree)\<close> has no \<^verbatim>\<open>yield\<close> of its own: it is an ordinary function that checks
  the root and then returns the generator. \<open>Inl\<close> is an exception raised by the call
  itself, at which point no generator exists and no node has been looked at beyond the
  root's tag; \<open>Inr\<close> is the sequence of the pairs that the returned generator yields.
\<close>

definition traverse :: "etree \<Rightarrow> error + (node \<times> string) list" where
  "traverse tree =
     (case tree of
        ElementTree r \<Rightarrow>
          (case r of
             None \<Rightarrow> Inl (ValueError ''root is None'')
           | Some root \<Rightarrow>
               if tag_of root \<noteq> Name ''html'' then Inl (ValueError ''root tag is not html'')
               else Inr (priv_traverse root ''/html''))
      | Elem e \<Rightarrow> Inr (priv_traverse e (''/'' @ tag_str (tag_of e))))"

subsection \<open>Claim about the root check\<close>

text \<open>
  C9: on an \<^verbatim>\<open>_ElementTree\<close> whose root is absent or whose root's tag is not \<^verbatim>\<open>html\<close>,
  \<^verbatim>\<open>traverse\<close> raises \<^verbatim>\<open>ValueError\<close> and yields nothing; on an \<^verbatim>\<open>_ElementTree\<close> with an
  \<^verbatim>\<open>html\<close> root it raises nothing and returns the traversal of the root from the
  address \<^verbatim>\<open>/html\<close>.
\<close>

theorem traverse_root_check:
  "traverse (ElementTree None) = Inl (ValueError ''root is None'') \<and>
   (tag_of root \<noteq> Name ''html'' \<longrightarrow>
      traverse (ElementTree (Some root)) = Inl (ValueError ''root tag is not html'')) \<and>
   (tag_of root = Name ''html'' \<longrightarrow>
      traverse (ElementTree (Some root)) = Inr (priv_traverse root ''/html''))"
  by (simp add: traverse_def)

theorem traverse_root_check_witness:
  "tag_of div_hello \<noteq> Name ''html'' \<and>
   traverse (ElementTree (Some div_hello)) = Inl (ValueError ''root tag is not html'') \<and>
   tag_of (Element ''html'' [] None None [div_hello]) = Name ''html'' \<and>
   traverse (ElementTree (Some (Element ''html'' [] None None [div_hello])))
     = Inr (priv_traverse (Element ''html'' [] None None [div_hello]) ''/html'')"
proof -
  have no: "tag_of div_hello \<noteq> Name ''html''"
    by (simp add: div_hello_def)
  have yes: "tag_of (Element ''html'' [] None None [div_hello]) = Name ''html''"
    by simp
  from traverse_root_check [of div_hello] no
  have bad: "traverse (ElementTree (Some div_hello)) = Inl (ValueError ''root tag is not html'')"
    by blast
  from traverse_root_check [of "Element ''html'' [] None None [div_hello]"] yes
  have good: "traverse (ElementTree (Some (Element ''html'' [] None None [div_hello])))
     = Inr (priv_traverse (Element ''html'' [] None None [div_hello]) ''/html'')"
    by blast
  from no yes bad good show ?thesis by blast
qed

section \<open>The inclusion pruner\<close>

text \<open>\<^verbatim>\<open>s.split("/")\<close> and \<^verbatim>\<open>"/".join(parts)\<close>.\<close>

fun split_on :: "char \<Rightarrow> string \<Rightarrow> string list" where
  "split_on sep [] = [[]]"
| "split_on sep (c # s) =
     (if c = sep then [] # split_on sep s
      else (case split_on sep s of
              [] \<Rightarrow> [[c]]
            | w # ws \<Rightarrow> (c # w) # ws))"

fun join :: "string \<Rightarrow> string list \<Rightarrow> string" where
  "join sep [] = []"
| "join sep [w] = w"
| "join sep (w # v # ws) = w @ sep @ join sep (v # ws)"

text \<open>
  \<^verbatim>\<open>parent_xpath(xpath)\<close>: the slice \<^verbatim>\<open>[:-1]\<close> drops the last part; \<^verbatim>\<open>split\<close> never
  returns an empty list.
\<close>

definition parent_xpath :: "string \<Rightarrow> string" where
  "parent_xpath xpath = join ''/'' (butlast (split_on CHR ''/'' xpath))"

text \<open>
  \<^verbatim>\<open>prune_by_xpath(ele, xpath, includes)\<close>: the new state of \<^verbatim>\<open>ele\<close> and the Boolean the
  function returns.
\<close>

definition prune_by_xpath :: "node \<Rightarrow> string \<Rightarrow> string list \<Rightarrow> node \<times> bool" where
  "prune_by_xpath ele xpath includes =
     (let is_in_path = list_ex (\<lambda>x. startswith x xpath) includes;
          is_contained = list_ex (\<lambda>x. startswith xpath x) includes
      in if \<not> is_in_path \<and> \<not> is_contained then
           (let include_parent = list_ex (\<lambda>x. startswith x (parent_xpath xpath)) includes
            in if include_parent then (set_text (clear ele) (Some ''''), False)
               else (ele, True))
         else (ele, True))"

lemma prune_by_xpath_children:
  "getchildren (fst (prune_by_xpath ele xpath includes)) = getchildren ele \<or>
   getchildren (fst (prune_by_xpath ele xpath includes)) = []"
  by (cases ele) (simp_all add: prune_by_xpath_def Let_def)

fun set_children :: "node \<Rightarrow> node list \<Rightarrow> node" where
  "set_children (Element t a tx ta cs) cs' = Element t a tx ta cs'"
| "set_children (Comment tx ta) cs' = Comment tx ta"

text \<open>
  \<^verbatim>\<open>_pre_order_traversal(tree, xpath, func)\<close> with the one callback the source passes to
  it, \<^verbatim>\<open>lambda ele, xpath: prune_by_xpath(ele, xpath, includes=includes)\<close>; an arbitrary
  callback could add children for ever, this one removes or keeps them. The callback
  runs on the node first, and the loops then read the children the node has left; the
  value the callback returns is dropped. The result is the state of the subtree when the
  call returns. (\<^verbatim>\<open>tree is None\<close> cannot happen below: the entry point reads the
  root's tag before it calls, and children are nodes.)
\<close>

function priv_pre_order_traversal :: "node \<Rightarrow> string \<Rightarrow> string list \<Rightarrow> node" where
  "priv_pre_order_traversal tree xpath includes =
     (let tree1 = fst (prune_by_xpath tree xpath includes);
          cs = getchildren tree1
      in set_children tree1
           (map (\<lambda>(ele, x). priv_pre_order_traversal ele x includes)
              (zip cs (child_xpaths xpath cs))))"
  by pat_completeness auto
termination
proof (relation "measure (\<lambda>(tree, xpath, includes). size tree)", goal_cases)
  case 1
  show ?case by simp
next
  case (2 tree xpath incl tree1 cs pair ele x)
  then have "(ele, x) \<in> set (zip (getchildren tree1) (child_xpaths xpath (getchildren tree1)))"
    by simp
  then have "ele \<in> set (getchildren tree1)"
    by (rule set_zip_leftD)
  with 2 prune_by_xpath_children [of tree xpath incl]
  have "ele \<in> set (getchildren tree)"
    by auto
  then show ?case
    by (simp add: size_child_less)
qed

declare priv_pre_order_traversal.simps [simp del]

text \<open>
  \<^verbatim>\<open>pre_order_traversal\<close> and \<^verbatim>\<open>extraction_based_pruning\<close>. On an empty \<^verbatim>\<open>_ElementTree\<close>
  the expression \<^verbatim>\<open>root.tag\<close> reads an attribute of \<^verbatim>\<open>None\<close>.
\<close>

definition pre_order_traversal :: "etree \<Rightarrow> string list \<Rightarrow> error + etree" where
  "pre_order_traversal tree includes =
     (case tree of
        ElementTree None \<Rightarrow> Inl AttributeError
      | ElementTree (Some root) \<Rightarrow>
          Inr (ElementTree (Some
            (priv_pre_order_traversal root (''/'' @ tag_str (tag_of root)) includes)))
      | Elem e \<Rightarrow>
          Inr (Elem (priv_pre_order_traversal e (''/'' @ tag_str (tag_of e)) includes)))"

definition extraction_based_pruning :: "etree \<Rightarrow> string list \<Rightarrow> error + etree" where
  "extraction_based_pruning tree includes = pre_order_traversal tree includes"

subsection \<open>The two-paragraph page\<close>

text \<open>\<^verbatim>\<open><html><div><p>A</p><p>B</p></div></html>\<close>, for any two texts.\<close>

definition two_p_div :: "string \<Rightarrow> string \<Rightarrow> node" where
  "two_p_div A B = Element ''div'' [] None None
     [Element ''p'' [] (Some A) None [], Element ''p'' [] (Some B) None []]"

definition two_p_page :: "string \<Rightarrow> string \<Rightarrow> node" where
  "two_p_page A B = Element ''html'' [] None None [two_p_div A B]"

lemma child_xpaths_page: "child_xpaths ''/html'' [two_p_div A B] = [''/html/div'']"
  by (simp add: child_xpaths_def tag_counts_def two_p_div_def)

lemma child_xpaths_div:
  "child_xpaths ''/html/div'' (getchildren (two_p_div A B))
     = [''/html/div/p[1]'', ''/html/div/p[2]'']"
  by (simp add: child_xpaths_def tag_counts_def two_p_div_def str_nat.simps digit_char_def)

lemma parent_xpath_second_p: "parent_xpath ''/html/div/p[2]'' = ''/html/div''"
  by (simp add: parent_xpath_def)

lemma prune_first_p:
  "priv_pre_order_traversal (Element ''p'' [] (Some A) None []) ''/html/div/p[1]''
     [''/html/div/p[1]''] = Element ''p'' [] (Some A) None []"
  by (subst priv_pre_order_traversal.simps)
     (simp add: prune_by_xpath_def startswith_def child_xpaths_def tag_counts_def)

lemma prune_second_p:
  "priv_pre_order_traversal (Element ''p'' [] (Some B) None []) ''/html/div/p[2]''
     [''/html/div/p[1]''] = Element ''p'' [] (Some '''') None []"
  by (subst priv_pre_order_traversal.simps)
     (simp add: prune_by_xpath_def startswith_def child_xpaths_def tag_counts_def
        parent_xpath_second_p)

lemma prune_two_p_div:
  "priv_pre_order_traversal (two_p_div A B) ''/html/div'' [''/html/div/p[1]'']
     = Element ''div'' [] None None
         [Element ''p'' [] (Some A) None [], Element ''p'' [] (Some '''') None []]"
proof -
  have keep: "prune_by_xpath (two_p_div A B) ''/html/div'' [''/html/div/p[1]'']
                = (two_p_div A B, True)"
    by (simp add: prune_by_xpath_def startswith_def)
  show ?thesis
    by (subst priv_pre_order_traversal.simps)
       (simp add: keep child_xpaths_div, simp add: two_p_div_def prune_first_p prune_second_p)
qed

lemma prune_two_p_page:
  "priv_pre_order_traversal (two_p_page A B) ''/html'' [''/html/div/p[1]'']
     = Element ''html'' [] None None
         [Element ''div'' [] None None
            [Element ''p'' [] (Some A) None [], Element ''p'' [] (Some '''') None []]]"
proof -
  have keep: "prune_by_xpath (two_p_page A B) ''/html'' [''/html/div/p[1]'']
                = (two_p_page A B, True)"
    by (simp add: prune_by_xpath_def startswith_def)
  show ?thesis
    by (subst priv_pre_order_traversal.simps)
       (simp add: keep, simp add: two_p_page_def child_xpaths_page prune_two_p_div)
qed

subsection \<open>Claim about the inclusion pruner\<close>

text \<open>
  C6: on \<^verbatim>\<open><html><div><p>A</p><p>B</p></div></html>\<close> with the include-set
  \<^verbatim>\<open>["/html/div/p[1]"]\<close>, \<^verbatim>\<open>extraction_based_pruning\<close> leaves \<^verbatim>\<open>html\<close>, \<^verbatim>\<open>div\<close> and the first
  \<^verbatim>\<open>p\<close> as they are and blanks the second \<^verbatim>\<open>p\<close>, which stays in the tree as an empty
  element with an empty text. This holds for both kinds of argument and any two texts.
\<close>

theorem extraction_based_pruning_two_p:
  "extraction_based_pruning (ElementTree (Some (two_p_page A B))) [''/html/div/p[1]'']
     = Inr (ElementTree (Some
         (Element ''html'' [] None None
            [Element ''div'' [] None None
               [Element ''p'' [] (Some A) None [], Element ''p'' [] (Some '''') None []]]))) \<and>
   extraction_based_pruning (Elem (two_p_page A B)) [''/html/div/p[1]'']
     = Inr (Elem
         (Element ''html'' [] None None
            [Element ''div'' [] None None
               [Element ''p'' [] (Some A) None [], Element ''p'' [] (Some '''') None []]]))"
proof -
  have "tag_str (tag_of (two_p_page A B)) = ''html''"
    by (simp add: two_p_page_def)
  then show ?thesis
    by (simp add: extraction_based_pruning_def pre_order_traversal_def prune_two_p_page)
qed

section \<open>The address-set reducer\<close>

text \<open>
  Python orders strings lexicographically by code point, a proper prefix before its
  extensions. \<^verbatim>\<open>sorted\<close> is modelled by insertion sort on that order.
\<close>

fun str_less :: "string \<Rightarrow> string \<Rightarrow> bool" where
  "str_less [] [] = False"
| "str_less [] (y # ys) = True"
| "str_less (x # xs) [] = False"
| "str_less (x # xs) (y # ys) =
     ((of_char x :: nat) < of_char y \<or> (x = y \<and> str_less xs ys))"

fun insort_str :: "string \<Rightarrow> string list \<Rightarrow> string list" where
  "insort_str x [] = [x]"
| "insort_str x (y # ys) = (if str_less y x then y # insort_str x ys else x # y # ys)"

definition sorted_strings :: "string list \<Rightarrow> string list" where
  "sorted_strings xs = foldr insort_str xs []"

text \<open>
  \<^verbatim>\<open>deduplicate_to_prune(xpaths)\<close>: the double loop collects every index \<^verbatim>\<open>j\<close> for which an
  earlier entry of the sorted list is a string prefix of entry \<^verbatim>\<open>j\<close>; the entries at the
  other indexes are returned in order.
\<close>

definition remove_indexes :: "string list \<Rightarrow> nat set" where
  "remove_indexes xpaths =
     set (concat (map (\<lambda>i. filter (\<lambda>j. startswith (xpaths ! j) (xpaths ! i))
                               [i + 1 ..< length xpaths])
                    [0 ..< length xpaths]))"

definition deduplicate_to_prune :: "string list \<Rightarrow> string list" where
  "deduplicate_to_prune xpaths =
     (let xpaths = sorted_strings xpaths
      in map (\<lambda>i. xpaths ! i)
           (filter (\<lambda>i. i \<notin> remove_indexes xpaths) [0 ..< length xpaths]))"

text \<open>
  Coverage in the words of C4: a path is covered by a list of addresses when it equals
  one of them or starts with one of them followed by the separator.
\<close>

definition covered_by :: "string list \<Rightarrow> string \<Rightarrow> bool" where
  "covered_by addresses p =
     list_ex (\<lambda>a. p = a \<or> startswith p (a @ ''/'')) addresses"

subsection \<open>Claim about the address-set reducer\<close>

text \<open>
  C4 says that the reduced list covers exactly the paths the input covers. The code tests
  \<^verbatim>\<open>startswith\<close> on the whole string, so an address is also dropped when an earlier one
  ends in a tag that is a prefix of its last tag. The addresses of the two children of
  \<^verbatim>\<open><div><p/><pre/></div>\<close> are \<^verbatim>\<open>/html/body/div/p\<close> and \<^verbatim>\<open>/html/body/div/pre\<close>; the
  second is dropped and is not covered by what remains.
\<close>

theorem deduplicate_to_prune_loses_coverage:
  "deduplicate_to_prune [''/html/body/div/p'', ''/html/body/div/pre''] = [''/html/body/div/p''] \<and>
   covered_by [''/html/body/div/p'', ''/html/body/div/pre''] ''/html/body/div/pre'' \<and>
   \<not> covered_by (deduplicate_to_prune [''/html/body/div/p'', ''/html/body/div/pre''])
         ''/html/body/div/pre''"
proof -
  have sorted: "sorted_strings [''/html/body/div/p'', ''/html/body/div/pre'']
                  = [''/html/body/div/p'', ''/html/body/div/pre'']"
    by (simp add: sorted_strings_def)
  have upt: "[0 ..< 2] = [0, Suc 0]" "[Suc 0 ..< 2] = [Suc 0]" "[Suc (Suc 0) ..< 2] = []"
    by (simp_all add: upt_conv_Cons)
  have rm: "remove_indexes [''/html/body/div/p'', ''/html/body/div/pre''] = {Suc 0}"
    by (simp add: remove_indexes_def upt startswith_def)
  have res: "deduplicate_to_prune [''/html/body/div/p'', ''/html/body/div/pre'']
               = [''/html/body/div/p'']"
    by (simp add: deduplicate_to_prune_def sorted rm upt)
  show ?thesis
    by (simp add: res) (simp add: covered_by_def startswith_def)
qed

section \<open>Control characters\<close>

text \<open>
  The argument of \<^verbatim>\<open>remove_control_characters\<close> is a Python string, a list of code
  points. \<^verbatim>\<open>html.encode("ascii", "xmlcharrefreplace").decode("utf-8")\<close> replaces every
  code point from 128 on with its decimal character reference; what is left is ASCII,
  a \<^typ>\<open>string\<close>.
\<close>

definition xmlcharrefreplace :: "nat list \<Rightarrow> string" where
  "xmlcharrefreplace html =
     concat (map (\<lambda>cp. if cp < 128 then [char_of cp] else ''&#'' @ str_nat cp @ '';'') html)"

text \<open>
  The character classes \<^verbatim>\<open>\d\<close> (on ASCII text) and \<^verbatim>\<open>[0-9a-fA-F]\<close>, and \<^verbatim>\<open>int(s, base)\<close>
  on a string of such digits, which is all the two patterns hand over. Python's \<^verbatim>\<open>int\<close>
  also reads signs, underscores and surrounding white space, and recent interpreters
  raise \<^verbatim>\<open>ValueError\<close> on a decimal string of more than 4300 digits; \<open>int_of_digits\<close>
  has neither and is meant for digit strings of ordinary length only.
\<close>

definition is_digit :: "char \<Rightarrow> bool" where
  "is_digit c = (c \<in> set ''0123456789'')"

definition is_hex_digit :: "char \<Rightarrow> bool" where
  "is_hex_digit c = (c \<in> set ''0123456789abcdefABCDEF'')"

definition digit_value :: "char \<Rightarrow> nat" where
  "digit_value c =
     (let n = (of_char c :: nat) in
      if 48 \<le> n \<and> n \<le> 57 then n - 48
      else if 97 \<le> n \<and> n \<le> 102 then n - 87
      else n - 55)"

definition int_of_digits :: "string \<Rightarrow> nat \<Rightarrow> nat" where
  "int_of_digits s base = foldl (\<lambda>n c. n * base + digit_value c) 0 s"

text \<open>The numeric test of \<^verbatim>\<open>strip_illegal_xml_characters\<close>, and the function itself.\<close>

definition illegal_codepoint :: "nat \<Rightarrow> bool" where
  "illegal_codepoint n =
     (n \<in> set [0xB, 0xC, 0xFFFE, 0xFFFF]
      \<or> (0x0 \<le> n \<and> n \<le> 0x8)
      \<or> (0xE \<le> n \<and> n \<le> 0x1F)
      \<or> (0xD800 \<le> n \<and> n \<le> 0xDFFF))"

definition strip_illegal_xml_characters :: "string \<Rightarrow> string \<Rightarrow> nat \<Rightarrow> string" where
  "strip_illegal_xml_characters s default_text base =
     (let n = int_of_digits s base in
      if illegal_codepoint n then [] else default_text)"

text \<open>
  A match of \<^verbatim>\<open>&#(\d+);?\<close> or of \<^verbatim>\<open>&#[xX]([0-9a-fA-F]+);?\<close> at the start of a string: the
  introducer, the longest run of digits, which must not be empty, and the semicolon if
  there is one. The result is group 1, the whole match, and the rest of the string.
\<close>

definition optional_semicolon :: "string \<Rightarrow> string \<times> string" where
  "optional_semicolon r =
     (case r of
        [] \<Rightarrow> ([], [])
      | c # r' \<Rightarrow> if c = CHR '';'' then ('';'', r') else ([], r))"

definition match_reference ::
  "string \<Rightarrow> (char \<Rightarrow> bool) \<Rightarrow> string \<Rightarrow> (string \<times> string \<times> string) option" where
  "match_reference intro digit s =
     (if startswith s intro then
        let r = drop (length intro) s;
            group1 = takeWhile digit r;
            (semi, rest) = optional_semicolon (dropWhile digit r)
        in if group1 = [] then None
           else Some (group1, intro @ group1 @ semi, rest)
      else None)"

definition match_decimal :: "string \<Rightarrow> (string \<times> string \<times> string) option" where
  "match_decimal s = match_reference ''&#'' is_digit s"

definition match_hex :: "string \<Rightarrow> (string \<times> string \<times> string) option" where
  "match_hex s =
     (case match_reference ''&#x'' is_hex_digit s of
        Some m \<Rightarrow> Some m
      | None \<Rightarrow> match_reference ''&#X'' is_hex_digit s)"

lemma optional_semicolon_length: "length (snd (optional_semicolon r)) \<le> length r"
  by (cases r) (simp_all add: optional_semicolon_def)

lemma match_reference_shorter:
  assumes m: "match_reference intro digit s = Some (g, whole, rest)"
  shows "length rest < length s"
proof -
  let ?r = "drop (length intro) s"
  from m have g: "takeWhile digit ?r \<noteq> []"
    by (auto simp: match_reference_def Let_def split: if_splits prod.splits)
  from m g have "rest = snd (optional_semicolon (dropWhile digit ?r))"
    by (auto simp: match_reference_def Let_def split: if_splits prod.splits)
  then have rest: "length rest \<le> length (dropWhile digit ?r)"
    by (simp add: optional_semicolon_length)
  have "length (takeWhile digit ?r) + length (dropWhile digit ?r) = length ?r"
    by (metis length_append takeWhile_dropWhile_id)
  moreover from g have "0 < length (takeWhile digit ?r)"
    by simp
  ultimately have "length (dropWhile digit ?r) < length ?r"
    by linarith
  with rest show ?thesis
    by simp
qed

lemma match_decimal_shorter:
  "match_decimal s = Some (g, whole, rest) \<Longrightarrow> length rest < length s"
  unfolding match_decimal_def by (rule match_reference_shorter)

lemma match_hex_shorter:
  "match_hex s = Some (g, whole, rest) \<Longrightarrow> length rest < length s"
  unfolding match_hex_def
  by (cases "match_reference ''&#x'' is_hex_digit s")
     (auto dest: match_reference_shorter)

text \<open>
  The two calls of \<^verbatim>\<open>re.sub\<close>: one pass from left to right; where the pattern matches,
  the callback's result is written and the scan goes on behind the match, elsewhere the
  character is copied. What has been written is not scanned again.
\<close>

function sub_decimal :: "string \<Rightarrow> string" where
  "sub_decimal [] = []"
| "sub_decimal (c # s) =
     (case match_decimal (c # s) of
        Some (group1, group0, rest) \<Rightarrow>
          strip_illegal_xml_characters group1 group0 10 @ sub_decimal rest
      | None \<Rightarrow> c # sub_decimal s)"
  by pat_completeness auto
termination
proof (relation "measure length", goal_cases)
  case 1
  show ?case by simp
next
  case (2 c s)
  show ?case by simp
next
  case (3 c s m group1 rest0 group0 rest)
  then have "match_decimal (c # s) = Some (group1, group0, rest)" by simp
  from match_decimal_shorter [OF this] show ?case by simp
qed

function sub_hex :: "string \<Rightarrow> string" where
  "sub_hex [] = []"
| "sub_hex (c # s) =
     (case match_hex (c # s) of
        Some (group1, group0, rest) \<Rightarrow>
          strip_illegal_xml_characters group1 group0 16 @ sub_hex rest
      | None \<Rightarrow> c # sub_hex s)"
  by pat_completeness auto
termination
proof (relation "measure length", goal_cases)
  case 1
  show ?case by simp
next
  case (2 c s)
  show ?case by simp
next
  case (3 c s m group1 rest0 group0 rest)
  then have "match_hex (c # s) = Some (group1, group0, rest)" by simp
  from match_hex_shorter [OF this] show ?case by simp
qed

text \<open>The character class of \<^verbatim>\<open>ILLEGAL_XML_CHARS_RE\<close>.\<close>

definition illegal_xml_char :: "char \<Rightarrow> bool" where
  "illegal_xml_char c =
     (let n = (of_char c :: nat) in
      (0x00 \<le> n \<and> n \<le> 0x08) \<or> n = 0x0b \<or> n = 0x0c \<or> (0x0e \<le> n \<and> n \<le> 0x1F)
      \<or> (0xD800 \<le> n \<and> n \<le> 0xDFFF) \<or> n = 0xFFFE \<or> n = 0xFFFF)"

definition remove_control_characters :: "nat list \<Rightarrow> string" where
  "remove_control_characters html =
     (let html = xmlcharrefreplace html;
          html = sub_decimal html;
          html = sub_hex html;
          html = filter (\<lambda>c. \<not> illegal_xml_char c) html
      in html)"

subsection \<open>Evaluating \<^verbatim>\<open>&#&#1;1;\<close>\<close>

lemma encode_nested: "xmlcharrefreplace (map of_char ''&#&#1;1;'') = ''&#&#1;1;''"
  by code_simp

lemma match_decimal_nested:
  "match_decimal ''&#&#1;1;'' = None"
  "match_decimal ''#&#1;1;'' = None"
  "match_decimal ''&#1;1;'' = Some (''1'', ''&#1;'', ''1;'')"
  "match_decimal ''1;'' = None"
  "match_decimal '';'' = None"
  by (simp_all add: match_decimal_def match_reference_def startswith_def is_digit_def
      optional_semicolon_def)

lemma strip_reference_one: "strip_illegal_xml_characters ''1'' ''&#1;'' 10 = []"
  by (simp add: strip_illegal_xml_characters_def int_of_digits_def digit_value_def
      illegal_codepoint_def)

lemma sub_decimal_nested: "sub_decimal ''&#&#1;1;'' = ''&#1;''"
  by (simp add: match_decimal_nested strip_reference_one)

lemma match_hex_joined:
  "match_hex ''&#1;'' = None" "match_hex ''#1;'' = None"
  "match_hex ''1;'' = None" "match_hex '';'' = None"
  by (simp_all add: match_hex_def match_reference_def startswith_def)

lemma sub_hex_joined: "sub_hex ''&#1;'' = ''&#1;''"
  by (simp add: match_hex_joined)

lemma filter_joined: "filter (\<lambda>c. \<not> illegal_xml_char c) ''&#1;'' = ''&#1;''"
  by (simp add: illegal_xml_char_def)

subsection \<open>Claim about control characters\<close>

text \<open>
  C10 says that the result contains neither an invalid code point nor a numeric
  character reference to one. Each \<^verbatim>\<open>re.sub\<close> is a single pass, so a reference that
  only comes into being when a match is deleted is not seen: in \<^verbatim>\<open>&#&#1;1;\<close> the inner
  reference \<^verbatim>\<open>&#1;\<close> is deleted and what is left reads \<^verbatim>\<open>&#1;\<close>, a decimal reference
  to the code point 1, which the function returns.
\<close>

theorem remove_control_characters_leaves_reference:
  "remove_control_characters (map of_char ''&#&#1;1;'') = ''&#1;'' \<and>
   match_decimal ''&#1;'' = Some (''1'', ''&#1;'', []) \<and>
   int_of_digits ''1'' 10 = 1 \<and>
   illegal_codepoint 1"
proof -
  have "remove_control_characters (map of_char ''&#&#1;1;'') = ''&#1;''"
    unfolding remove_control_characters_def Let_def encode_nested sub_decimal_nested
      sub_hex_joined filter_joined
    by (rule refl)
  moreover have "match_decimal ''&#1;'' = Some (''1'', ''&#1;'', [])"
    by (simp add: match_decimal_def match_reference_def startswith_def is_digit_def
        optional_semicolon_def)
  moreover have "int_of_digits ''1'' 10 = 1"
    by (simp add: int_of_digits_def digit_value_def)
  moreover have "illegal_codepoint 1"
    by (simp add: illegal_codepoint_def)
  ultimately show ?thesis by blast
qed

end
